theory Spec2Isabelle
  imports Main "HOL-Library.Word" "HOL-Library.Multiset"
begin

unbundle bit_operations_syntax

section \<open>Errors\<close>

text \<open>
  The two exception classes of \<^verbatim>\<open>raptor.py\<close>, each carrying the message handed to
  \<^verbatim>\<open>Exception.__init__\<close>, and the built-in exceptions the interpreter raises on the
  paths of the source.
\<close>

datatype error =
    RaptorR10ParameterException string
  | RaptorR10DecodingScheduleException string
  | NameError
  | TypeError
  | AttributeError
  | IndexError
  | KeyError
  | ValueError
  | ZeroDivisionError

fun show_nat :: "nat \<Rightarrow> string" where
  "show_nat n =
     (if n < 10 then [char_of (48 + n)]
      else show_nat (n div 10) @ [char_of (48 + n mod 10)])"

declare show_nat.simps [simp del]

definition decoding_schedule_message :: "string \<Rightarrow> string" where
  \<comment> \<open>\<^verbatim>\<open>RaptorR10DecodingScheduleException.__init__\<close>: generic text, colon, specific text.\<close>
  "decoding_schedule_message specific =
     ''A problem occurred while creating the decoding schedule'' @ '': '' @ specific"

definition MIN_K :: nat where "MIN_K = 4"
definition MAX_K :: nat where "MAX_K = 8192"

section \<open>The consumed tables\<close>

text \<open>
  The modules under \<^verbatim>\<open>distributions\<close> are data consumed by \<^verbatim>\<open>raptor.py\<close>; they are
  parameters of the model. \<^verbatim>\<open>primes.next\<close> and \<^verbatim>\<open>half.next\<close> answer \<^verbatim>\<open>None\<close> when the
  table has no entry, which is what the source tests with \<^verbatim>\<open>not self.s\<close>.
  All integers that occur are non-negative (encoding symbol identifiers, table entries,
  indices), so they are natural numbers here.
\<close>

record tables =
  primes_next :: "nat \<Rightarrow> nat option"
  half_next :: "nat \<Rightarrow> nat option"
  systematic_index_table :: "nat \<Rightarrow> nat"
  random_R10 :: "nat \<Rightarrow> nat \<Rightarrow> nat \<Rightarrow> nat"
  degree_R10 :: "nat \<Rightarrow> nat"
  gray_SEQUENCE :: "nat \<Rightarrow> nat \<Rightarrow> nat"
  optimal_esi_get_esi :: "nat \<Rightarrow> nat \<Rightarrow> nat"

section \<open>Parameter derivation\<close>

text \<open>
  The fields that \<^verbatim>\<open>set_params\<close> writes on \<^verbatim>\<open>self\<close>. \<^verbatim>\<open>self.l_prime\<close> is stored as
  \<^verbatim>\<open>primes.next\<close> returns it, without a test, so it may be \<^verbatim>\<open>None\<close>.
\<close>

record params =
  self_k :: nat
  self_x :: nat
  self_s :: nat
  self_h :: nat
  self_h_prime :: nat
  self_l :: nat
  self_l_prime :: "nat option"
  self_systematic_index :: nat

text \<open>
  \<^verbatim>\<open>int(math.ceil((1 + math.sqrt(1 + 8 * k)) / 2))\<close>: the least positive \<open>x\<close> with
  \<open>x * (x - 1) \<ge> 2 * k\<close>, found here by search. \<^verbatim>\<open>math.ceil(0.01 * k)\<close> is
  \<open>\<lceil>k / 100\<rceil>\<close>. For \<open>k \<le> 8192\<close> the double-precision results are these integers.
\<close>

definition x_of_k :: "nat \<Rightarrow> nat" where
  "x_of_k k = (case find (\<lambda>x. 2 * k \<le> x * (x - 1)) [1 ..< 2 * k + 3] of
                 Some x \<Rightarrow> x | None \<Rightarrow> 0)"

definition ceil_hundredth :: "nat \<Rightarrow> nat" where
  "ceil_hundredth k = (k + 99) div 100"

definition k_range_message :: "nat \<Rightarrow> string" where
  "k_range_message k =
     ''k: '' @ show_nat k @ '' -- k must be between '' @ show_nat MIN_K @ '' and '' @ show_nat MAX_K"

definition no_s_message :: "nat \<Rightarrow> nat \<Rightarrow> string" where
  "no_s_message k x = ''s: -- No s found for k: '' @ show_nat k @ '' and x: '' @ show_nat x"

definition set_params :: "tables \<Rightarrow> nat \<Rightarrow> error + params" where
  \<comment> \<open>When \<^verbatim>\<open>half.next\<close> answers \<^verbatim>\<open>None\<close> or 0 the source builds a
      \<^verbatim>\<open>RaptorR10ParameterException\<close> and drops it (there is no \<^verbatim>\<open>raise\<close>); the next
      statement divides \<^verbatim>\<open>self.h\<close> by \<^verbatim>\<open>2.0\<close>, a \<^verbatim>\<open>TypeError\<close> on \<^verbatim>\<open>None\<close>.\<close>
  "set_params T k =
     (if k < MIN_K \<or> k > MAX_K then Inl (RaptorR10ParameterException (k_range_message k))
      else
        let x = x_of_k k in
        case primes_next T (ceil_hundredth k + x) of
          None \<Rightarrow> Inl (RaptorR10ParameterException (no_s_message k x))
        | Some s \<Rightarrow>
            if s = 0 then Inl (RaptorR10ParameterException (no_s_message k x))
            else
              (case half_next T (k + s) of
                 None \<Rightarrow> Inl TypeError
               | Some h \<Rightarrow>
                   Inr \<lparr> self_k = k, self_x = x, self_s = s, self_h = h,
                         self_h_prime = (h + 1) div 2,
                         self_l = k + s + h,
                         self_l_prime = primes_next T (k + s + h),
                         self_systematic_index = systematic_index_table T k \<rparr>))"

section \<open>Triple generator\<close>

definition triple :: "tables \<Rightarrow> params \<Rightarrow> nat \<Rightarrow> error + (nat \<times> nat \<times> nat)" where
  \<comment> \<open>\<^verbatim>\<open>self.l_prime - 1\<close> on \<^verbatim>\<open>None\<close> is a \<^verbatim>\<open>TypeError\<close>; it is evaluated after
      \<^verbatim>\<open>v\<close> and \<^verbatim>\<open>d\<close>, which cannot fail in the model.\<close>
  "triple T P ident =
     (let Q = 65521;
          A = (53591 + self_systematic_index P * 997) mod Q;
          B = 10267 * (self_systematic_index P + 1) mod Q;
          Y = (B + ident * A) mod Q;
          v = random_R10 T Y 0 1048576;
          d = degree_R10 T v
      in case self_l_prime P of
           None \<Rightarrow> Inl TypeError
         | Some lp \<Rightarrow>
             Inr (d, 1 + random_R10 T Y 1 (lp - 1), random_R10 T Y 2 lp))"

section \<open>Bit matrices and the schedule\<close>

text \<open>
  A \<^verbatim>\<open>bitarray\<close> is a list of bits, matrix \<open>A\<close> a list of rows. The rows of an assembled
  matrix all have length \<open>L\<close>, which is what \<^verbatim>\<open>^\<close> on bitarrays requires.
\<close>

type_synonym bitarray = "bool list"
type_synonym matrix = "bool list list"

definition count :: "bitarray \<Rightarrow> nat" where
  "count ba = length (filter (\<lambda>b. b) ba)"

definition xor_bits :: "bitarray \<Rightarrow> bitarray \<Rightarrow> bitarray" where
  "xor_bits x y = map2 (\<lambda>p q. p \<noteq> q) x y"

record schedule =
  sched_c :: "nat list"
  sched_d :: "nat list"
  sched_xors :: "(nat \<times> nat) list"

text \<open>
  Modelled from the spec: the class \<^verbatim>\<open>Schedule\<close> (module \<^verbatim>\<open>schedule\<close>) is not among the
  sources. The specification describes it: \<open>xors\<close> is the ordered log of
  (source row, target row) pairs replayed on the payload buffer, \<open>d\<close> is the
  row-to-payload-buffer map updated by row exchanges, \<open>c\<close> the column-to-intermediate-symbol
  map updated by column exchanges, both starting as the identity. The payload buffer is
  never permuted during replay, so a logged pair names buffer rows: the rows \<open>d\<close> maps
  the matrix rows to when the operation is recorded. \<^verbatim>\<open>xor_row\<close> hands over the target
  row first and the source row second.
\<close>

definition Schedule :: "nat \<Rightarrow> nat \<Rightarrow> schedule" where
  "Schedule l m = \<lparr> sched_c = [0 ..< l], sched_d = [0 ..< m], sched_xors = [] \<rparr>"

definition schedule_xor :: "schedule \<Rightarrow> nat \<Rightarrow> nat \<Rightarrow> schedule" where
  "schedule_xor sch r1 r2 =
     sch \<lparr> sched_xors := sched_xors sch @ [(sched_d sch ! r2, sched_d sch ! r1)] \<rparr>"

definition schedule_exchange_row :: "schedule \<Rightarrow> nat \<Rightarrow> nat \<Rightarrow> schedule" where
  "schedule_exchange_row sch r1 r2 =
     sch \<lparr> sched_d := (sched_d sch) [r1 := sched_d sch ! r2, r2 := sched_d sch ! r1] \<rparr>"

definition schedule_exchange_column :: "schedule \<Rightarrow> nat \<Rightarrow> nat \<Rightarrow> schedule" where
  "schedule_exchange_column sch c1 c2 =
     sch \<lparr> sched_c := (sched_c sch) [c1 := sched_c sch ! c2, c2 := sched_c sch ! c1] \<rparr>"

text \<open>
  The state the solver mutates: the matrix \<^verbatim>\<open>a\<close>, the list \<^verbatim>\<open>o_degrees\<close> and the
  schedule.
\<close>

record solver =
  mat :: matrix
  o_degrees :: "nat list"
  sched :: schedule

definition xor_row :: "solver \<Rightarrow> nat \<Rightarrow> nat \<Rightarrow> solver" where
  "xor_row st r1 r2 =
     st \<lparr> mat := (mat st) [r1 := xor_bits (mat st ! r1) (mat st ! r2)],
          sched := schedule_xor (sched st) r1 r2 \<rparr>"

definition exchange_column :: "solver \<Rightarrow> nat \<Rightarrow> nat \<Rightarrow> solver" where
  "exchange_column st c1 c2 =
     st \<lparr> mat := map (\<lambda>row. row [c1 := row ! c2, c2 := row ! c1]) (mat st),
          sched := schedule_exchange_column (sched st) c1 c2 \<rparr>"

definition exchange_row :: "solver \<Rightarrow> nat \<Rightarrow> nat \<Rightarrow> solver" where
  "exchange_row st r1 r2 =
     st \<lparr> mat := (mat st) [r1 := mat st ! r2, r2 := mat st ! r1],
          o_degrees := (o_degrees st) [r1 := o_degrees st ! r2, r2 := o_degrees st ! r1],
          sched := schedule_exchange_row (sched st) r1 r2 \<rparr>"

definition prepass_inner :: "nat \<Rightarrow> nat \<Rightarrow> solver \<Rightarrow> solver" where
  "prepass_inner i j st =
     (if count (xor_bits (mat st ! i) (mat st ! j)) + 2 < count (mat st ! j)
      then xor_row st j i else st)"

definition prepass :: "solver \<Rightarrow> solver" where
  "prepass st =
     (let n = length (mat st)
      in fold (\<lambda>i st1. fold (prepass_inner i) [i + 1 ..< n] st1) [0 ..< n] st)"

section \<open>Row selection\<close>

definition v_count :: "nat \<Rightarrow> bitarray \<Rightarrow> nat \<Rightarrow> nat \<Rightarrow> nat" where
  \<comment> \<open>\<^verbatim>\<open>a[row_index][i:(self.l - u)].count()\<close>\<close>
  "v_count l row i u = count (take (l - u - i) (drop i row))"

definition rows_with_min_r_step ::
  "nat \<Rightarrow> matrix \<Rightarrow> nat \<Rightarrow> nat \<Rightarrow> nat \<Rightarrow> nat option \<times> nat list \<Rightarrow> nat option \<times> nat list" where
  "rows_with_min_r_step l a i u row_index acc =
     (let r = v_count l (a ! row_index) i u
      in if r = 0 then acc
         else (case fst acc of
                 None \<Rightarrow> (Some r, [row_index])
               | Some min_r \<Rightarrow>
                   if r < min_r then (Some r, [row_index])
                   else if r = min_r then (Some min_r, snd acc @ [row_index])
                   else acc))"

definition rows_with_min_r :: "nat \<Rightarrow> matrix \<Rightarrow> nat \<Rightarrow> nat \<Rightarrow> nat \<Rightarrow> nat option \<times> nat list" where
  "rows_with_min_r l a m i u = fold (rows_with_min_r_step l a i u) [i ..< m] (None, [])"

definition min_degree_row :: "nat list \<Rightarrow> nat \<Rightarrow> nat list \<Rightarrow> nat option" where
  "min_degree_row odeg m rows_with_r =
     snd (fold (\<lambda>r (min_degree, min_row).
                  if odeg ! r < min_degree then (odeg ! r, Some r) else (min_degree, min_row))
               rows_with_r (m + 1, None))"

text \<open>
  Two results of the source depend on library internals: which element \<^verbatim>\<open>set.pop()\<close>
  removes, and which edge \<^verbatim>\<open>networkx\<close> lists first in the largest connected component.
  Both are parameters. \<open>set_pop\<close> receives the elements of the set, \<open>first_edge_row\<close> the
  edges \<open>(v1, v2, row_index)\<close> added to the graph, in order.
\<close>

record choices =
  set_pop :: "nat list \<Rightarrow> nat"
  first_edge_row :: "(nat \<times> nat \<times> nat) list \<Rightarrow> nat"


definition row_from_graph ::
  "choices \<Rightarrow> nat \<Rightarrow> matrix \<Rightarrow> nat \<Rightarrow> nat \<Rightarrow> nat list \<Rightarrow> error + nat option" where
  \<comment> \<open>\<^verbatim>\<open>v1, v2 = tuple(vertices)\<close> is a \<^verbatim>\<open>ValueError\<close> unless the row has exactly two
      ones in \<open>V\<close>; with no edge at all \<^verbatim>\<open>max_component\<close> stays \<^verbatim>\<open>None\<close>.\<close>
  "row_from_graph ch l a i u rows_with_r =
     (let vertices = map (\<lambda>row. filter (\<lambda>v. a ! row ! v) [i ..< l - u]) rows_with_r
      in if \<exists>vs \<in> set vertices. length vs \<noteq> 2 then Inl ValueError
         else if rows_with_r = [] then Inl TypeError
         else Inr (Some (first_edge_row ch
                 (map (\<lambda>row. (filter (\<lambda>v. a ! row ! v) [i ..< l - u] ! 0,
                                filter (\<lambda>v. a ! row ! v) [i ..< l - u] ! 1, row))
                      rows_with_r))))"

section \<open>The decoding schedule\<close>

definition no_nonzero_row_message :: string where
  "no_nonzero_row_message = decoding_schedule_message ''No nonzero row to choose from v''"

definition u_lower_message :: "nat \<Rightarrow> string" where
  "u_lower_message u =
     decoding_schedule_message (''U lower is of less rank than '' @ show_nat u @ ''.'')"

definition xor_rows_below :: "nat \<Rightarrow> nat \<Rightarrow> solver \<Rightarrow> solver" where
  \<comment> \<open>\<^verbatim>\<open>for row in xrange(c + 1, m): if a[row][c]: self.xor_row(a, row, c, schedule)\<close>\<close>
  "xor_rows_below m c st =
     fold (\<lambda>row st1. if mat st1 ! row ! c then xor_row st1 row c else st1) [c + 1 ..< m] st"

function align :: "choices \<Rightarrow> nat \<Rightarrow> nat \<Rightarrow> nat list \<Rightarrow> solver \<Rightarrow> error + solver" where
  "align ch i column ones st =
     (if column > i \<and> ones \<noteq> [] then
        (if \<not> mat st ! i ! column then
           (let c = set_pop ch ones
            in align ch i (column - 1) (removeAll c ones) (exchange_column st column c))
         else if column \<in> set ones then align ch i (column - 1) (removeAll column ones) st
         else Inl KeyError)
      else Inr st)"
  by pat_completeness auto
termination
  by (relation "measure (\<lambda>(ch, i, column, ones, st). column)") auto

declare align.simps [simp del]

definition first_column :: "choices \<Rightarrow> nat \<Rightarrow> nat list \<Rightarrow> solver \<Rightarrow> error + (nat list \<times> solver)" where
  \<comment> \<open>\<^verbatim>\<open>ones.pop()\<close> on an empty set and \<^verbatim>\<open>ones.remove(i)\<close> of a missing element are
      \<^verbatim>\<open>KeyError\<close>s.\<close>
  "first_column ch i ones st =
     (if \<not> mat st ! i ! i then
        (if ones = [] then Inl KeyError
         else let column = set_pop ch ones
              in Inr (removeAll column ones, exchange_column st i column))
      else if i \<in> set ones then Inr (removeAll i ones, st)
      else Inl KeyError)"

definition choose_row ::
  "choices \<Rightarrow> nat \<Rightarrow> nat \<Rightarrow> solver \<Rightarrow> nat \<Rightarrow> nat \<Rightarrow> nat option \<Rightarrow> nat list \<Rightarrow> error + nat option" where
  "choose_row ch l m st i u r rows_with_r =
     (if r = Some 2 then row_from_graph ch l (mat st) i u rows_with_r
      else Inr (min_degree_row (o_degrees st) m rows_with_r))"

definition phase1_step ::
  "choices \<Rightarrow> nat \<Rightarrow> nat \<Rightarrow> solver \<Rightarrow> nat \<Rightarrow> nat \<Rightarrow> error + (solver \<times> nat)" where
  \<comment> \<open>One pass through the body of the \<^verbatim>\<open>while (i + u) < self.l\<close> loop; the result is the
      state and \<open>r\<close>. \<^verbatim>\<open>rows_with_min_r\<close> reads \<^verbatim>\<open>a[row_index]\<close> for every index of
      \<^verbatim>\<open>xrange(i, m)\<close>, an \<^verbatim>\<open>IndexError\<close> when the list is shorter than \<open>m\<close>. It reports
      \<^verbatim>\<open>None\<close>, never 0, when no row of \<open>V\<close> has a one; the chosen row is then \<^verbatim>\<open>None\<close>.
      \<^verbatim>\<open>exchange_row\<close> first reads \<^verbatim>\<open>a[r1]\<close> with \<open>r1 = i\<close>, an \<^verbatim>\<open>IndexError\<close> when the list
      has no row \<open>i\<close>, and then \<^verbatim>\<open>a[r2]\<close>: a \<^verbatim>\<open>TypeError\<close> for the row \<^verbatim>\<open>None\<close>, an
      \<^verbatim>\<open>IndexError\<close> for a row beyond the list.\<close>
  "phase1_step ch l m st i u =
     (if i < m \<and> length (mat st) < m then Inl IndexError
      else
        (case rows_with_min_r l (mat st) m i u of
           (r, rows_with_r) \<Rightarrow>
             (case choose_row ch l m st i u r rows_with_r of
                Inl e \<Rightarrow> Inl e
              | Inr row \<Rightarrow>
                  if r = Some 0
                  then Inl (RaptorR10DecodingScheduleException no_nonzero_row_message)
                  else if length (mat st) \<le> i then Inl IndexError
                  else
                    (case row of
                       None \<Rightarrow> Inl TypeError
                     | Some row \<Rightarrow>
                         if length (mat st) \<le> row then Inl IndexError
                         else
                           (let st1 = exchange_row st i row;
                                ones = filter (\<lambda>column. mat st1 ! i ! column) [i ..< l - u]
                            in case first_column ch i ones st1 of
                                 Inl e \<Rightarrow> Inl e
                               | Inr (ones1, st2) \<Rightarrow>
                                   (case align ch i (l - u - 1) ones1 st2 of
                                      Inl e \<Rightarrow> Inl e
                                    | Inr st3 \<Rightarrow>
                                        (case r of
                                           None \<Rightarrow> Inl TypeError
                                         | Some rv \<Rightarrow> Inr (xor_rows_below m i st3, rv))))))))"

function phase1 ::
  "choices \<Rightarrow> nat \<Rightarrow> nat \<Rightarrow> solver \<Rightarrow> nat \<Rightarrow> nat \<Rightarrow> error + (solver \<times> nat \<times> nat)" where
  \<comment> \<open>The loop \<^verbatim>\<open>while (i + u) < self.l\<close>, ending with \<^verbatim>\<open>i += 1\<close> and \<^verbatim>\<open>u += r - 1\<close>. A pass
      that returns has \<open>r \<ge> 1\<close>, which is why the loop ends.\<close>
  "phase1 ch l m st i u =
     (if i + u < l then
        (case phase1_step ch l m st i u of
           Inl e \<Rightarrow> Inl e
         | Inr (st1, r) \<Rightarrow> phase1 ch l m st1 (i + 1) (u + (r - 1)))
      else Inr (st, i, u))"
  by pat_completeness auto
termination
proof (relation "measure (\<lambda>(ch, l, m, st, i, u). l - (i + u))")
  show "wf (measure (\<lambda>(ch, l, m, st, i, u). l - (i + u)))" by simp
next
  fix ch :: choices and l m :: nat and st :: solver and i u :: nat and x2 st1 r
  assume lt: "i + u < l" and step: "phase1_step ch l m st i u = Inr x2" and x: "(st1, r) = x2"
  from step x have "r \<noteq> 0"
    by (auto simp: phase1_step_def Let_def
             split: if_splits prod.splits sum.splits option.splits)
  with lt show "((ch, l, m, st1, i + 1, u + (r - 1)), ch, l, m, st, i, u)
                  \<in> measure (\<lambda>(ch, l, m, st, i, u). l - (i + u))"
    by simp
qed

declare phase1.simps [simp del]

fun phase2 :: "nat \<Rightarrow> nat \<Rightarrow> nat list \<Rightarrow> solver \<Rightarrow> error + solver" where
  "phase2 m u [] st = Inr st"
| "phase2 m u (column # columns) st =
     (if length (mat st) \<le> column then Inl IndexError
      else
        (let st1 = (if \<not> mat st ! column ! column then
                      (case find (\<lambda>row. mat st ! row ! column) [column + 1 ..< m] of
                         Some row \<Rightarrow> exchange_row st column row
                       | None \<Rightarrow> st)
                    else st)
         in if \<not> mat st1 ! column ! column
            then Inl (RaptorR10DecodingScheduleException (u_lower_message u))
            else phase2 m u columns (xor_rows_below m column st1)))"

definition phase3 :: "nat \<Rightarrow> nat \<Rightarrow> nat \<Rightarrow> solver \<Rightarrow> solver" where
  "phase3 l i u st =
     fold (\<lambda>column st1.
             fold (\<lambda>row st2. if mat st2 ! row ! column then xor_row st2 row column else st2)
                  [i ..< column] st1)
          (rev [l - u ..< l]) st"

definition phase4 :: "nat \<Rightarrow> nat \<Rightarrow> nat \<Rightarrow> solver \<Rightarrow> solver" where
  "phase4 l i u st =
     fold (\<lambda>row st1.
             fold (\<lambda>column st2. if mat st2 ! row ! column then xor_row st2 row column else st2)
                  [l - u ..< l] st1)
          [0 ..< i] st"

definition decoding_schedule ::
  "choices \<Rightarrow> nat \<Rightarrow> nat \<Rightarrow> bool \<Rightarrow> matrix \<Rightarrow> error + (schedule \<times> matrix)" where
  \<comment> \<open>\<open>l\<close> is \<^verbatim>\<open>self.l\<close>, \<open>m\<close> is \<^verbatim>\<open>self.s + self.h + len(self.symbols)\<close> and \<open>pre\<close> is
      \<^verbatim>\<open>self.use_prepass\<close>. The result is the schedule together with the caller's list
      \<^verbatim>\<open>a\<close> as the call leaves it: \<^verbatim>\<open>a[:self.l]\<close> shares its rows with that list and
      \<^verbatim>\<open>^=\<close> updates a row in place.\<close>
  "decoding_schedule ch l m pre a =
     (let st0 = \<lparr> mat = a, o_degrees = map count a, sched = Schedule l m \<rparr>;
          st1 = (if pre then prepass st0 else st0)
      in case phase1 ch l m st1 0 0 of
           Inl e \<Rightarrow> Inl e
         | Inr (st2, i, u) \<Rightarrow>
             (case phase2 m u [l - u ..< l] st2 of
                Inl e \<Rightarrow> Inl e
              | Inr st3 \<Rightarrow>
                  (let st4 = phase4 l i u (phase3 l i u st3)
                   in Inr (sched st4, mat st4))))"

section \<open>Assembling matrix A\<close>

definition ldpc_column :: "nat \<Rightarrow> nat \<Rightarrow> matrix \<Rightarrow> matrix" where
  \<comment> \<open>The body of \<^verbatim>\<open>for i in xrange(k)\<close> in \<^verbatim>\<open>ldpc\<close>: three ones in column \<open>i\<close>.\<close>
  "ldpc_column s i M =
     (let a = 1 + ((i div s) mod (s - 1));
          b = i mod s;
          M1 = M [b := (M ! b) [i := True]];
          b1 = (b + a) mod s;
          M2 = M1 [b1 := (M1 ! b1) [i := True]];
          b2 = (b1 + a) mod s
      in M2 [b2 := (M2 ! b2) [i := True]])"

definition ldpc :: "nat \<Rightarrow> nat \<Rightarrow> error + matrix" where
  \<comment> \<open>\<^verbatim>\<open>i / float(s)\<close> and \<^verbatim>\<open>% (s - 1)\<close> divide by zero when \<open>s \<le> 1\<close>.\<close>
  "ldpc k s =
     (if 0 < k \<and> s \<le> 1 then Inl ZeroDivisionError
      else Inr (fold (ldpc_column s) [0 ..< k] (replicate s (replicate k False))))"

definition half :: "tables \<Rightarrow> nat \<Rightarrow> nat \<Rightarrow> nat \<Rightarrow> nat \<Rightarrow> matrix" where
  \<comment> \<open>\<^verbatim>\<open>check_nth_bit(h, gray.SEQUENCE[H_HALF][j])\<close> for row \<open>h\<close> and column \<open>j\<close>.\<close>
  "half T k S H H_HALF =
     map (\<lambda>h. map (\<lambda>j. bit (gray_SEQUENCE T H_HALF j) h) [0 ..< k + S]) [0 ..< H]"

text \<open>
  Modelled from the spec: the module \<^verbatim>\<open>matrix\<close> with \<^verbatim>\<open>identity\<close> and \<^verbatim>\<open>zeros\<close> is not
  among the sources; the specification names the blocks \<open>Identity[S\<times>S]\<close>, \<open>Zero[S\<times>H]\<close>
  and \<open>Identity[H\<times>H]\<close>.
\<close>

definition matrix_identity :: "nat \<Rightarrow> matrix" where
  "matrix_identity n = map (\<lambda>i. map (\<lambda>j. i = j) [0 ..< n]) [0 ..< n]"

definition matrix_zeros :: "nat \<Rightarrow> nat \<Rightarrow> matrix" where
  "matrix_zeros r c = replicate r (replicate c False)"

definition ldpc_section :: "params \<Rightarrow> error + matrix" where
  "ldpc_section P =
     (case ldpc (self_k P) (self_s P) of
        Inl e \<Rightarrow> Inl e
      | Inr M \<Rightarrow>
          Inr (map (\<lambda>i. M ! i @ matrix_identity (self_s P) ! i
                          @ matrix_zeros (self_s P) (self_h P) ! i)
                   [0 ..< self_s P]))"

definition hdpc_section :: "tables \<Rightarrow> params \<Rightarrow> matrix" where
  "hdpc_section T P =
     map (\<lambda>i. half T (self_k P) (self_s P) (self_h P) (self_h_prime P) ! i
                @ matrix_identity (self_h P) ! i)
         [0 ..< self_h P]"

text \<open>
  \<^verbatim>\<open>while b >= self.l: b = (b + a) % self.l_prime\<close> may run forever (the value \<open>None\<close>);
  with \<^verbatim>\<open>self.l_prime\<close> zero the remainder is a \<^verbatim>\<open>ZeroDivisionError\<close>.
\<close>

partial_function (option) skip_to_l :: "nat \<Rightarrow> nat \<Rightarrow> nat \<Rightarrow> nat \<Rightarrow> (error + nat) option" where
  "skip_to_l l lp a b =
     (if l \<le> b then
        (if lp = 0 then Some (Inl ZeroDivisionError) else skip_to_l l lp a ((b + a) mod lp))
      else Some (Inr b))"

declare skip_to_l.simps [code]

fun lt_next_columns :: "nat \<Rightarrow> nat \<Rightarrow> nat \<Rightarrow> nat \<Rightarrow> nat \<Rightarrow> (error + nat list) option" where
  \<comment> \<open>The \<open>n\<close> remaining passes of \<^verbatim>\<open>for j in xrange(1, min(d, self.l))\<close>, from column \<open>b\<close>:
      the columns visited, in order.\<close>
  "lt_next_columns l lp a 0 b = Some (Inr [])"
| "lt_next_columns l lp a (Suc n) b =
     (if lp = 0 then Some (Inl ZeroDivisionError)
      else
        (case skip_to_l l lp a ((b + a) mod lp) of
           None \<Rightarrow> None
         | Some (Inl e) \<Rightarrow> Some (Inl e)
         | Some (Inr b1) \<Rightarrow>
             (case lt_next_columns l lp a n b1 of
                None \<Rightarrow> None
              | Some (Inl e) \<Rightarrow> Some (Inl e)
              | Some (Inr bs) \<Rightarrow> Some (Inr (b1 # bs)))))"

definition lt_columns :: "tables \<Rightarrow> params \<Rightarrow> nat \<Rightarrow> (error + nat list) option" where
  \<comment> \<open>The columns \<open>b\<close> that \<^verbatim>\<open>lt_row\<close> marks and whose intermediate symbols \<^verbatim>\<open>ltenc\<close>
      combines: both run the same loop on \<open>(d, a, b)\<close>.\<close>
  "lt_columns T P esi =
     (case triple T P esi of
        Inl e \<Rightarrow> Some (Inl e)
      | Inr (d, a, b) \<Rightarrow>
          (case self_l_prime P of
             None \<Rightarrow> Some (Inl TypeError)
           | Some lp \<Rightarrow>
               (case skip_to_l (self_l P) lp a b of
                  None \<Rightarrow> None
                | Some (Inl e) \<Rightarrow> Some (Inl e)
                | Some (Inr b0) \<Rightarrow>
                    (case lt_next_columns (self_l P) lp a (min d (self_l P) - 1) b0 of
                       None \<Rightarrow> None
                     | Some (Inl e) \<Rightarrow> Some (Inl e)
                     | Some (Inr bs) \<Rightarrow> Some (Inr (b0 # bs))))))"

definition lt_row :: "tables \<Rightarrow> params \<Rightarrow> nat \<Rightarrow> (error + bitarray) option" where
  "lt_row T P esi =
     (case lt_columns T P esi of
        None \<Rightarrow> None
      | Some (Inl e) \<Rightarrow> Some (Inl e)
      | Some (Inr bs) \<Rightarrow>
          Some (Inr (fold (\<lambda>b ba. ba [b := True]) bs (replicate (self_l P) False))))"

fun lt_section :: "tables \<Rightarrow> params \<Rightarrow> nat list \<Rightarrow> (error + matrix) option" where
  \<comment> \<open>\<^verbatim>\<open>for id, symbol in self.symbols: m.append(self.lt_row(id))\<close>, on the identifiers.\<close>
  "lt_section T P [] = Some (Inr [])"
| "lt_section T P (esi # esis) =
     (case lt_row T P esi of
        None \<Rightarrow> None
      | Some (Inl e) \<Rightarrow> Some (Inl e)
      | Some (Inr row) \<Rightarrow>
          (case lt_section T P esis of
             None \<Rightarrow> None
           | Some (Inl e) \<Rightarrow> Some (Inl e)
           | Some (Inr rows) \<Rightarrow> Some (Inr (row # rows))))"

definition assemble_a :: "tables \<Rightarrow> params \<Rightarrow> nat list \<Rightarrow> (error + matrix) option" where
  \<comment> \<open>The method \<^verbatim>\<open>a\<close>: LDPC rows, then HDPC rows, then one LT row per received symbol.\<close>
  "assemble_a T P esis =
     (case ldpc_section P of
        Inl e \<Rightarrow> Some (Inl e)
      | Inr ldpc_rows \<Rightarrow>
          (case lt_section T P esis of
             None \<Rightarrow> None
           | Some (Inl e) \<Rightarrow> Some (Inl e)
           | Some (Inr lt_rows) \<Rightarrow> Some (Inr (ldpc_rows @ hdpc_section T P @ lt_rows))))"

section \<open>The encoder and decoder instance\<close>

text \<open>
  The attributes of a \<^verbatim>\<open>RaptorR10\<close> object beyond its parameters. A payload is a
  \<^verbatim>\<open>numpy\<close> array of machine words (\<^verbatim>\<open>uint64\<close> or \<^verbatim>\<open>uint32\<close>), all payloads of a block
  having the same length. \<^verbatim>\<open>self.i_symbols\<close> does not exist before
  \<^verbatim>\<open>calculate_i_symbols\<close> has run, and its slots start as \<^verbatim>\<open>None\<close>.
\<close>

record 'a raptor =
  prm :: params
  use_prepass :: bool
  use_optimal_esis :: bool
  current_id :: nat
  symbols :: "(nat \<times> 'a list) list"
  self_xors :: nat
  i_symbols :: "'a list option list option"

definition init :: "tables \<Rightarrow> nat \<Rightarrow> bool \<Rightarrow> bool \<Rightarrow> error + 'a raptor" where
  \<comment> \<open>\<^verbatim>\<open>__init__(self, k, use_prepass, use_optimal_esis)\<close>\<close>
  "init T k pre opt =
     (case set_params T k of
        Inl e \<Rightarrow> Inl e
      | Inr P \<Rightarrow>
          Inr \<lparr> prm = P, use_prepass = pre, use_optimal_esis = opt, current_id = 0,
                symbols = [], self_xors = 0, i_symbols = None \<rparr>)"

definition xor_arrays :: "'a::len word list \<Rightarrow> 'a word list \<Rightarrow> 'a word list" where
  \<comment> \<open>\<^verbatim>\<open>numpy.bitwise_xor(source, target, target)\<close>: the new contents of \<open>target\<close>.\<close>
  "xor_arrays source target = map2 (\<lambda>x y. x XOR y) source target"

definition calculate_d :: "'a::len word raptor \<Rightarrow> error + 'a word list list" where
  "calculate_d self =
     (case symbols self of
        [] \<Rightarrow> Inl IndexError
      | first # _ \<Rightarrow>
          Inr (replicate (self_s (prm self) + self_h (prm self)) (replicate (length (snd first)) 0)
               @ map snd (symbols self)))"

definition replay :: "(nat \<times> nat) list \<Rightarrow> 'a::len word list list \<Rightarrow> 'a word list list" where
  \<comment> \<open>\<^verbatim>\<open>for xor_row, target_row in schedule.xors: self.xor_arrays(D[xor_row], D[target_row])\<close>\<close>
  "replay xors D =
     fold (\<lambda>(xor_row, target_row) D1. D1 [target_row := xor_arrays (D1 ! xor_row) (D1 ! target_row)])
          xors D"

definition place_i_symbols ::
  "nat \<Rightarrow> schedule \<Rightarrow> 'a word list list \<Rightarrow> 'a word list option list" where
  \<comment> \<open>\<^verbatim>\<open>for i in xrange(self.l): self.i_symbols[schedule.c[i]] = D[schedule.d[i]]\<close>\<close>
  "place_i_symbols l sch D =
     fold (\<lambda>i I. I [sched_c sch ! i := Some (D ! (sched_d sch ! i))]) [0 ..< l] (replicate l None)"

definition calculate_i_symbols ::
  "tables \<Rightarrow> choices \<Rightarrow> 'a::len word raptor \<Rightarrow> (error + 'a word raptor) option" where
  \<comment> \<open>The name raised when too few symbols are held,
      \<^verbatim>\<open>RaptorR10DecodingScheduleExceptionException\<close>, is not defined anywhere: evaluating it
      is a \<^verbatim>\<open>NameError\<close>. The payload arrays of \<^verbatim>\<open>self.symbols\<close> are the rows of \<open>D\<close>
      beyond the first \<open>S + H\<close>, so the replay changes them in place.\<close>
  "calculate_i_symbols T ch self =
     (if length (symbols self) < self_k (prm self) then Some (Inl NameError)
      else
        (case assemble_a T (prm self) (map fst (symbols self)) of
           None \<Rightarrow> None
         | Some (Inl e) \<Rightarrow> Some (Inl e)
         | Some (Inr a) \<Rightarrow>
             (case decoding_schedule ch (self_l (prm self))
                     (self_s (prm self) + self_h (prm self) + length (symbols self))
                     (use_prepass self) a of
                Inl e \<Rightarrow> Some (Inl e)
              | Inr (sch, a1) \<Rightarrow>
                  (case calculate_d self of
                     Inl e \<Rightarrow> Some (Inl e)
                   | Inr D \<Rightarrow>
                       (let D1 = replay (sched_xors sch) D
                        in Some (Inr (self
                             \<lparr> symbols := zip (map fst (symbols self))
                                              (drop (self_s (prm self) + self_h (prm self)) D1),
                               self_xors := length (sched_xors sch),
                               i_symbols := Some (place_i_symbols (self_l (prm self)) sch D1) \<rparr>)))))))"

definition can_decode :: "tables \<Rightarrow> choices \<Rightarrow> 'a::len word raptor \<Rightarrow> bool option" where
  \<comment> \<open>\<^verbatim>\<open>try: ... return True\<close>, then a bare \<^verbatim>\<open>except: pass\<close> and \<^verbatim>\<open>return False\<close>. The matrix
      and the schedule are local to the call; no attribute of \<^verbatim>\<open>self\<close> is written.\<close>
  "can_decode T ch self =
     (case assemble_a T (prm self) (map fst (symbols self)) of
        None \<Rightarrow> None
      | Some (Inl e) \<Rightarrow> Some False
      | Some (Inr a) \<Rightarrow>
          (case decoding_schedule ch (self_l (prm self))
                  (self_s (prm self) + self_h (prm self) + length (symbols self))
                  (use_prepass self) a of
             Inl e \<Rightarrow> Some False
           | Inr r \<Rightarrow> Some True))"

section \<open>LT encoding\<close>

fun ltenc_loop ::
  "nat \<Rightarrow> nat \<Rightarrow> nat \<Rightarrow> 'a::len word list option list \<Rightarrow> nat \<Rightarrow> nat \<Rightarrow> 'a word list
     \<Rightarrow> (error + 'a word list) option" where
  \<comment> \<open>The \<open>n\<close> remaining passes of \<^verbatim>\<open>for j in xrange(1, min(d, self.l))\<close> in \<^verbatim>\<open>ltenc\<close>. A slot
      of \<^verbatim>\<open>self.i_symbols\<close> still holding \<^verbatim>\<open>None\<close> makes \<^verbatim>\<open>bitwise_xor\<close> a \<^verbatim>\<open>TypeError\<close>.\<close>
  "ltenc_loop l lp a I 0 b result = Some (Inr result)"
| "ltenc_loop l lp a I (Suc n) b result =
     (if lp = 0 then Some (Inl ZeroDivisionError)
      else
        (case skip_to_l l lp a ((b + a) mod lp) of
           None \<Rightarrow> None
         | Some (Inl e) \<Rightarrow> Some (Inl e)
         | Some (Inr b1) \<Rightarrow>
             (case I ! b1 of
                None \<Rightarrow> Some (Inl TypeError)
              | Some symbol \<Rightarrow> ltenc_loop l lp a I n b1 (xor_arrays symbol result))))"

definition ltenc :: "tables \<Rightarrow> 'a::len word raptor \<Rightarrow> nat \<Rightarrow> (error + 'a word list) option" where
  "ltenc T self ident =
     (case triple T (prm self) ident of
        Inl e \<Rightarrow> Some (Inl e)
      | Inr (d, a, b) \<Rightarrow>
          (case self_l_prime (prm self) of
             None \<Rightarrow> Some (Inl TypeError)
           | Some lp \<Rightarrow>
               (case skip_to_l (self_l (prm self)) lp a b of
                  None \<Rightarrow> None
                | Some (Inl e) \<Rightarrow> Some (Inl e)
                | Some (Inr b0) \<Rightarrow>
                    (case i_symbols self of
                       None \<Rightarrow> Some (Inl AttributeError)
                     | Some I \<Rightarrow>
                         (case I ! b0 of
                            None \<Rightarrow> Some (Inl TypeError)
                          | Some symbol \<Rightarrow>
                              ltenc_loop (self_l (prm self)) lp a I
                                (min d (self_l (prm self)) - 1) b0 symbol)))))"

subsection \<open>LT encoding on a store of arrays\<close>

text \<open>
  To speak of which arrays \<^verbatim>\<open>ltenc\<close> writes, arrays live in a store: a reference is a
  natural number, \<open>next_ref\<close> the first unused one. \<^verbatim>\<open>self.i_symbols\<close> is then a list of
  references.
\<close>

record 'a store =
  cells :: "nat \<Rightarrow> 'a list"
  next_ref :: nat

definition numpy_array_copy :: "'a word store \<Rightarrow> nat \<Rightarrow> nat \<times> 'a word store" where
  \<comment> \<open>\<^verbatim>\<open>numpy.array(x, copy=True)\<close>: a new array with the contents of \<open>x\<close>.\<close>
  "numpy_array_copy h p =
     (next_ref h, h \<lparr> cells := (cells h) (next_ref h := cells h p), next_ref := Suc (next_ref h) \<rparr>)"

definition xor_arrays_store :: "'a::len word store \<Rightarrow> nat \<Rightarrow> nat \<Rightarrow> 'a word store" where
  \<comment> \<open>\<^verbatim>\<open>numpy.bitwise_xor(source, target, target)\<close>: only \<open>target\<close> is written.\<close>
  "xor_arrays_store h source target =
     h \<lparr> cells := (cells h) (target := xor_arrays (cells h source) (cells h target)) \<rparr>"

fun ltenc_store_loop ::
  "nat \<Rightarrow> nat \<Rightarrow> nat \<Rightarrow> nat list \<Rightarrow> nat \<Rightarrow> nat \<Rightarrow> nat \<Rightarrow> 'a::len word store
     \<Rightarrow> (error + 'a word store) option" where
  "ltenc_store_loop l lp a irefs 0 b result h = Some (Inr h)"
| "ltenc_store_loop l lp a irefs (Suc n) b result h =
     (if lp = 0 then Some (Inl ZeroDivisionError)
      else
        (case skip_to_l l lp a ((b + a) mod lp) of
           None \<Rightarrow> None
         | Some (Inl e) \<Rightarrow> Some (Inl e)
         | Some (Inr b1) \<Rightarrow>
             ltenc_store_loop l lp a irefs n b1 result
               (xor_arrays_store h (irefs ! b1) result)))"

definition ltenc_store ::
  "tables \<Rightarrow> params \<Rightarrow> nat list \<Rightarrow> nat \<Rightarrow> 'a::len word store \<Rightarrow> (error + nat \<times> 'a word store) option" where
  \<comment> \<open>\<open>irefs\<close> are the references held in \<^verbatim>\<open>self.i_symbols\<close>; the result is the reference of
      the returned array and the store after the call.\<close>
  "ltenc_store T P irefs ident h =
     (case triple T P ident of
        Inl e \<Rightarrow> Some (Inl e)
      | Inr (d, a, b) \<Rightarrow>
          (case self_l_prime P of
             None \<Rightarrow> Some (Inl TypeError)
           | Some lp \<Rightarrow>
               (case skip_to_l (self_l P) lp a b of
                  None \<Rightarrow> None
                | Some (Inl e) \<Rightarrow> Some (Inl e)
                | Some (Inr b0) \<Rightarrow>
                    (case numpy_array_copy h (irefs ! b0) of
                       (result, h1) \<Rightarrow>
                         (case ltenc_store_loop (self_l P) lp a irefs
                                 (min d (self_l P) - 1) b0 result h1 of
                            None \<Rightarrow> None
                          | Some (Inl e) \<Rightarrow> Some (Inl e)
                          | Some (Inr h2) \<Rightarrow> Some (Inr (result, h2)))))))"

definition get_next_id :: "tables \<Rightarrow> params \<Rightarrow> bool \<Rightarrow> nat \<Rightarrow> nat \<times> nat" where
  \<comment> \<open>\<^verbatim>\<open>_get_next_id\<close>: the identifier and the incremented \<^verbatim>\<open>self.current_id\<close>.\<close>
  "get_next_id T P opt cur =
     ((if opt then optimal_esi_get_esi T (self_k P) cur else cur), cur + 1)"

definition next_store ::
  "tables \<Rightarrow> params \<Rightarrow> bool \<Rightarrow> nat \<Rightarrow> nat list \<Rightarrow> 'a::len word store
     \<Rightarrow> (error + (nat \<times> nat) \<times> nat \<times> 'a word store) option" where
  \<comment> \<open>\<^verbatim>\<open>next\<close>: the pair (identifier, reference of the encoded array), the new
      \<^verbatim>\<open>self.current_id\<close> and the store.\<close>
  "next_store T P opt cur irefs h =
     (case get_next_id T P opt cur of
        (symbol_id, cur1) \<Rightarrow>
          (case ltenc_store T P irefs symbol_id h of
             None \<Rightarrow> None
           | Some (Inl e) \<Rightarrow> Some (Inl e)
           | Some (Inr (result, h1)) \<Rightarrow> Some (Inr ((symbol_id, result), cur1, h1))))"

definition sample_choices :: choices where
  "sample_choices = \<lparr> set_pop = hd, first_edge_row = (\<lambda>es. snd (snd (hd es))) \<rparr>"

section \<open>Sample tables\<close>

text \<open>
  A concrete, executable set of tables on which the definitions can be run. The prime
  and binomial searches and the Gray sequence follow their description in the
  specification; the degree distribution is the one of RFC 5053; the two pseudo-random
  tables \<open>V0\<close> and \<open>V1\<close> are stand-ins with 32-bit entries.
\<close>

definition is_prime :: "nat \<Rightarrow> bool" where
  "is_prime p = (1 < p \<and> (\<forall>d \<in> set [2 ..< p]. \<not> d dvd p))"

definition sample_primes_next :: "nat \<Rightarrow> nat option" where
  "sample_primes_next n = find is_prime [n ..< 2 * n + 3]"

definition sample_half_next :: "nat \<Rightarrow> nat option" where
  "sample_half_next n = find (\<lambda>h. n \<le> h choose ((h + 1) div 2)) [1 ..< n + 2]"

definition sample_V0 :: "nat \<Rightarrow> nat" where
  "sample_V0 i = (i * 2654435761 + 40503) mod 4294967296"

definition sample_V1 :: "nat \<Rightarrow> nat" where
  "sample_V1 i = (i * 40503 + 2246822519) mod 4294967296"

definition sample_random_R10 :: "nat \<Rightarrow> nat \<Rightarrow> nat \<Rightarrow> nat" where
  "sample_random_R10 Y i m =
     (sample_V0 ((Y + i) mod 256) XOR sample_V1 ((Y div 256 + i) mod 256)) mod m"

definition sample_degree_R10 :: "nat \<Rightarrow> nat" where
  "sample_degree_R10 v =
     (if v < 10241 then 1 else if v < 491582 then 2 else if v < 712794 then 3
      else if v < 831695 then 4 else if v < 948446 then 10
      else if v < 1032189 then 11 else 40)"

definition gray :: "nat \<Rightarrow> nat" where
  "gray i = i XOR (i div 2)"

definition popcount :: "nat \<Rightarrow> nat \<Rightarrow> nat" where
  "popcount w n = length (filter (\<lambda>j. bit n j) [0 ..< w])"

definition sample_gray_SEQUENCE :: "nat \<Rightarrow> nat \<Rightarrow> nat" where
  "sample_gray_SEQUENCE hp j =
     (map gray (filter (\<lambda>i. popcount (2 * hp) (gray i) = hp) [0 ..< 2 ^ (2 * hp)])) ! j"

definition sample_tables :: tables where
  "sample_tables =
     \<lparr> primes_next = sample_primes_next, half_next = sample_half_next,
       systematic_index_table = (\<lambda>k. 1),
       random_R10 = sample_random_R10, degree_R10 = sample_degree_R10,
       gray_SEQUENCE = sample_gray_SEQUENCE,
       optimal_esi_get_esi = (\<lambda>k i. i) \<rparr>"

section \<open>The interface of the tables\<close>

text \<open>
  What the specification says of the consumed tables: \<^verbatim>\<open>R10(Y, i, m)\<close> is reduced
  modulo \<open>m\<close>, the degree table maps \<open>[0, 2^20)\<close> into \<open>[1, 40]\<close>, and the prime table
  answers with a prime that is not below its argument.
\<close>

definition random_ok :: "tables \<Rightarrow> bool" where
  "random_ok T = (\<forall>Y i m. 0 < m \<longrightarrow> random_R10 T Y i m < m)"

definition degree_ok :: "tables \<Rightarrow> bool" where
  "degree_ok T = (\<forall>v. v < 1048576 \<longrightarrow> 1 \<le> degree_R10 T v \<and> degree_R10 T v \<le> 40)"

definition primes_ok :: "tables \<Rightarrow> bool" where
  "primes_ok T = (\<forall>n p. primes_next T n = Some p \<longrightarrow> n \<le> p \<and> is_prime p)"

definition params_K4 :: params where
  "params_K4 = \<lparr> self_k = 4, self_x = 4, self_s = 5, self_h = 5, self_h_prime = 3,
                  self_l = 14, self_l_prime = Some 17, self_systematic_index = 1 \<rparr>"

section \<open>Sample inputs\<close>


definition short_instance :: "64 word raptor" where
  "short_instance =
     \<lparr> prm = params_K4, use_prepass = True, use_optimal_esis = False, current_id = 0,
       symbols = [(0, [1]), (1, [2]), (2, [3])], self_xors = 0, i_symbols = None \<rparr>"

definition sample_store :: "64 word store" where
  "sample_store = \<lparr> cells = (\<lambda>p. [of_nat p, 7]), next_ref = 14 \<rparr>"

section \<open>Notions used to state the properties of LT rows\<close>

text \<open>
  \<open>walk lp a b t\<close> is the value of \<open>b\<close> after \<open>t\<close> steps \<open>b \<leftarrow> (b + a) mod lp\<close>;
  \<open>hits_before\<close> counts the steps before \<open>t\<close> at which the value is a column, that is
  below \<open>l\<close>. \<open>xor_of_columns W I row\<close> is the XOR of the intermediate symbols \<open>I\<close>, of
  width \<open>W\<close>, at the columns that the bit-vector \<open>row\<close> marks.
\<close>

definition walk :: "nat \<Rightarrow> nat \<Rightarrow> nat \<Rightarrow> nat \<Rightarrow> nat" where
  "walk lp a b t = (b + t * a) mod lp"

definition hits_before :: "nat \<Rightarrow> nat \<Rightarrow> nat \<Rightarrow> nat \<Rightarrow> nat \<Rightarrow> nat" where
  "hits_before l lp a b t = card {s. s < t \<and> walk lp a b s < l}"

definition symbol_at :: "'a list option list \<Rightarrow> nat \<Rightarrow> 'a list" where
  "symbol_at I c = (case I ! c of Some v \<Rightarrow> v | None \<Rightarrow> [])"

definition xor_of_columns :: "nat \<Rightarrow> 'a::len word list option list \<Rightarrow> bitarray \<Rightarrow> 'a word list" where
  "xor_of_columns W I row =
     fold xor_arrays (map (symbol_at I) (filter (\<lambda>c. row ! c) [0 ..< length row])) (replicate W 0)"

definition encoder_K4 :: "64 word raptor" where
  "encoder_K4 =
     \<lparr> prm = params_K4, use_prepass = True, use_optimal_esis = False, current_id = 0,
       symbols = [], self_xors = 0,
       i_symbols = Some (map (\<lambda>c. Some [of_nat c, 7]) [0 ..< 14]) \<rparr>"

section \<open>Invariants of the solver\<close>

text \<open>
  The notions in which the properties of \<^verbatim>\<open>decoding_schedule\<close> are stated and proved.
  \<open>wf_mat\<close>: the matrix has \<open>m\<close> rows, each of length \<open>l\<close>. \<open>col_nonzero\<close>: every one of the
  \<open>l\<close> columns holds a one. \<open>odeg_ok\<close>: \<^verbatim>\<open>o_degrees\<close> has one entry per row, none above \<open>m\<close>.
\<close>

definition wf_mat :: "nat \<Rightarrow> nat \<Rightarrow> matrix \<Rightarrow> bool" where
  "wf_mat l m A = (length A = m \<and> list_all (\<lambda>row. length row = l) A)"






definition xor_step :: "nat \<Rightarrow> nat \<Rightarrow> solver \<Rightarrow> solver" where
  "xor_step c row st = (if mat st ! row ! c then xor_row st row c else st)"

definition row_step :: "nat \<Rightarrow> nat \<Rightarrow> solver \<Rightarrow> solver" where
  "row_step row column st = (if mat st ! row ! column then xor_row st row column else st)"



definition inv4 :: "nat \<Rightarrow> nat \<Rightarrow> matrix \<Rightarrow> nat \<Rightarrow> nat \<Rightarrow> nat \<Rightarrow> bool" where
  "inv4 l m A i k j =
     (wf_mat l m A \<and> l \<le> m \<and> i \<le> l
      \<and> (\<forall>r < k. \<forall>c < l. A ! r ! c = (r = c))
      \<and> (\<forall>r. i \<le> r \<and> r < l \<longrightarrow> (\<forall>c < l. A ! r ! c = (r = c)))
      \<and> (\<forall>r < i. \<forall>c < i. A ! r ! c = (r = c))
      \<and> (\<forall>c. i \<le> c \<and> c < j \<longrightarrow> \<not> A ! k ! c))"



section \<open>Facts about parameter derivation and triples\<close>

lemma set_params_Inr_D:
  assumes "set_params T k = Inr P"
  shows "MIN_K \<le> k \<and> k \<le> MAX_K \<and> self_k P = k
         \<and> self_l P = self_k P + self_s P + self_h P
         \<and> self_l_prime P = primes_next T (self_l P)
         \<and> primes_next T (ceil_hundredth k + x_of_k k) = Some (self_s P) \<and> 0 < self_s P"
  using assms
  by (auto simp: set_params_def Let_def split: if_splits option.splits)

lemma sample_random_ok: "random_ok sample_tables"
  by (simp add: random_ok_def sample_tables_def sample_random_R10_def)

lemma sample_degree_ok: "degree_ok sample_tables"
  by (simp add: degree_ok_def sample_tables_def sample_degree_R10_def)

lemma sample_primes_ok: "primes_ok sample_tables"
  unfolding primes_ok_def sample_tables_def sample_primes_next_def
  by (auto simp: find_Some_iff)

lemma set_params_K4: "set_params sample_tables 4 = Inr params_K4"
  unfolding params_K4_def by code_simp

subsection \<open>Claim C9\<close>

text \<open>
  C9 (code as written): when the search for \<open>H\<close> answers \<^verbatim>\<open>None\<close>, after \<open>K\<close> passed the
  range test and the search for \<open>S\<close> succeeded, \<^verbatim>\<open>set_params\<close> does not raise the
  parameter exception: the exception object is built and dropped, and the caller gets the
  \<^verbatim>\<open>TypeError\<close> of the division that follows.
\<close>

theorem set_params_h_failure_is_TypeError:
  assumes "MIN_K \<le> k" and "k \<le> MAX_K"
    and "primes_next T (ceil_hundredth k + x_of_k k) = Some s" and "0 < s"
    and "half_next T (k + s) = None"
  shows "set_params T k = Inl TypeError"
  using assms by (simp add: set_params_def Let_def)

theorem set_params_h_failure_at_K4:
  "set_params (sample_tables \<lparr> half_next := (\<lambda>n. None) \<rparr>) 4 = Inl TypeError"
proof -
  have s: "primes_next (sample_tables \<lparr> half_next := (\<lambda>n. None) \<rparr>)
             (ceil_hundredth 4 + x_of_k 4) = Some 5"
    by code_simp
  show ?thesis
    using set_params_h_failure_is_TypeError
      [of 4 "sample_tables \<lparr> half_next := (\<lambda>n. None) \<rparr>" 5, OF _ _ s]
    by (simp add: MIN_K_def MAX_K_def)
qed

lemma triple_bounds:
  assumes P: "set_params T k = Inr P"
    and lp: "self_l_prime P = Some lp"
    and R: "random_ok T" and D: "degree_ok T" and Pr: "primes_ok T"
  shows "\<exists>d a b. triple T P ident = Inr (d, a, b)
           \<and> 1 \<le> a \<and> a \<le> lp - 1 \<and> b \<le> lp - 1 \<and> 1 \<le> d \<and> d \<le> 40"
proof -
  from set_params_Inr_D [OF P]
  have k: "MIN_K \<le> k" and l: "self_l P = self_k P + self_s P + self_h P"
    and kk: "self_k P = k" and lpn: "self_l_prime P = primes_next T (self_l P)"
    by simp_all
  from lp lpn Pr have "self_l P \<le> lp" by (simp add: primes_ok_def)
  with k l kk have big: "4 \<le> lp" by (simp add: MIN_K_def)
  define Y where "Y = (10267 * (self_systematic_index P + 1) mod 65521
                        + ident * ((53591 + self_systematic_index P * 997) mod 65521)) mod 65521"
  have a: "random_R10 T Y 1 (lp - 1) < lp - 1"
    using R big by (simp add: random_ok_def)
  have b: "random_R10 T Y 2 lp < lp"
    using R big by (simp add: random_ok_def)
  have v: "random_R10 T Y 0 1048576 < 1048576"
    using R by (simp add: random_ok_def)
  have d: "1 \<le> degree_R10 T (random_R10 T Y 0 1048576)
           \<and> degree_R10 T (random_R10 T Y 0 1048576) \<le> 40"
    using D v by (simp add: degree_ok_def)
  have "triple T P ident =
          Inr (degree_R10 T (random_R10 T Y 0 1048576),
               1 + random_R10 T Y 1 (lp - 1), random_R10 T Y 2 lp)"
    by (simp add: triple_def Let_def lp Y_def)
  with a b d show ?thesis by auto
qed

subsection \<open>Claim C8\<close>

text \<open>
  C8: for a valid \<open>K\<close> whose parameters were derived by \<^verbatim>\<open>set_params\<close>, with \<open>L'\<close> found
  in the prime table, and tables that meet their interface, \<^verbatim>\<open>triple\<close> returns
  \<open>(d, a, b)\<close> with \<open>1 \<le> a \<le> L' - 1\<close>, \<open>0 \<le> b \<le> L' - 1\<close> and \<open>1 \<le> d \<le> 40\<close>, for every
  encoding symbol identifier.
\<close>

theorem triple_range:
  assumes P: "set_params T k = Inr P"
    and lp: "self_l_prime P = Some lp"
    and R: "random_ok T" and D: "degree_ok T" and Pr: "primes_ok T"
  shows "\<exists>d a b. triple T P ident = Inr (d, a, b)
           \<and> 1 \<le> a \<and> a \<le> lp - 1 \<and> b \<le> lp - 1 \<and> 1 \<le> d \<and> d \<le> 40"
  using assms by (rule triple_bounds)

theorem triple_range_witness:
  "set_params sample_tables 4 = Inr params_K4 \<and> self_l_prime params_K4 = Some 17
   \<and> (\<exists>d a b. triple sample_tables params_K4 7 = Inr (d, a, b)
         \<and> 1 \<le> a \<and> a \<le> 17 - 1 \<and> b \<le> 17 - 1 \<and> 1 \<le> d \<and> d \<le> 40)"
proof -
  have lp: "self_l_prime params_K4 = Some 17" by (simp add: params_K4_def)
  show ?thesis
    using triple_range [OF set_params_K4 lp sample_random_ok sample_degree_ok sample_primes_ok, of 7]
      set_params_K4 lp
    by simp
qed

subsection \<open>Claim C4\<close>

text \<open>
  C4 (code as written): with fewer than \<open>K\<close> symbols held, \<^verbatim>\<open>calculate_i_symbols\<close> does not
  raise the decoding-schedule exception; the \<^verbatim>\<open>raise\<close> statement names the undefined
  \<^verbatim>\<open>RaptorR10DecodingScheduleExceptionException\<close>, and the caller gets a \<^verbatim>\<open>NameError\<close>.
\<close>

theorem calculate_i_symbols_too_few_is_NameError:
  assumes "length (symbols self) < self_k (prm self)"
  shows "calculate_i_symbols T ch self = Some (Inl NameError)"
  using assms by (simp add: calculate_i_symbols_def)

theorem calculate_i_symbols_too_few_at_K4:
  "length (symbols short_instance) < self_k (prm short_instance)
   \<and> calculate_i_symbols sample_tables sample_choices short_instance = Some (Inl NameError)"
proof -
  have n: "length (symbols short_instance) < self_k (prm short_instance)"
    by (simp add: short_instance_def params_K4_def)
  show ?thesis
    using calculate_i_symbols_too_few_is_NameError [OF n, of sample_tables sample_choices] n
    by simp
qed

section \<open>Facts about LT encoding\<close>

lemma params_K4_simps:
  "self_l params_K4 = 14" "self_l_prime params_K4 = Some 17" "self_k params_K4 = 4"
  "self_s params_K4 = 5" "self_h params_K4 = 5" "self_h_prime params_K4 = 3"
  by (simp_all add: params_K4_def)

lemma triple_K4_2: "triple sample_tables params_K4 2 = Inr (2, 2, 15)"
  by (simp add: triple_def sample_tables_def params_K4_def sample_random_R10_def
        sample_V0_def sample_V1_def sample_degree_R10_def Let_def)

lemma skip_to_l_lt:
  assumes "skip_to_l l lp a b = Some (Inr b')"
  shows "b' < l"
proof -
  have "\<forall>c. (Inr b' :: error + nat) = Inr c \<longrightarrow> c < l"
    by (rule skip_to_l.raw_induct
          [where P = "\<lambda>l lp a b r. \<forall>c. r = Inr c \<longrightarrow> c < l", OF _ assms])
       (auto split: if_splits)
  then show ?thesis by simp
qed

lemma xor_arrays_store_frame:
  "p \<noteq> target \<Longrightarrow> cells (xor_arrays_store h source target) p = cells h p"
  "next_ref (xor_arrays_store h source target) = next_ref h"
  by (simp_all add: xor_arrays_store_def)

lemma ltenc_store_loop_frame:
  "ltenc_store_loop l lp a irefs n b result h = Some (Inr h') \<Longrightarrow>
   next_ref h' = next_ref h \<and> (\<forall>p. p \<noteq> result \<longrightarrow> cells h' p = cells h p)"
proof (induction n arbitrary: b h)
  case 0
  then show ?case by simp
next
  case (Suc n)
  then show ?case
    by (auto simp: xor_arrays_store_frame split: if_splits option.splits sum.splits)
qed

lemma ltenc_store_frame:
  assumes "ltenc_store T P irefs ident h = Some (Inr (result, h'))"
  shows "result = next_ref h \<and> next_ref h' = Suc (next_ref h)
         \<and> (\<forall>p. p < next_ref h \<longrightarrow> cells h' p = cells h p)"
  using assms
  by (auto simp: ltenc_store_def numpy_array_copy_def
           split: sum.splits option.splits prod.splits dest!: ltenc_store_loop_frame)

lemma ltenc_store_K4_2:
  "\<exists>h'. ltenc_store sample_tables params_K4 [0 ..< 14] 2 sample_store = Some (Inr (14, h'))"
  by (simp add: ltenc_store_def triple_K4_2 params_K4_simps skip_to_l.simps
        numpy_array_copy_def sample_store_def)

subsection \<open>Claim C10\<close>

text \<open>
  C10: \<^verbatim>\<open>ltenc\<close>, and \<^verbatim>\<open>next\<close> which calls it, write only into the array that
  \<^verbatim>\<open>numpy.array(..., copy=True)\<close> allocates for the result. With the intermediate symbols
  held as references to arrays allocated before the call, a call that returns leaves the
  contents of every intermediate symbol as they were, and the returned array is none of
  them.
\<close>

theorem ltenc_frame:
  assumes "\<forall>p \<in> set irefs. p < next_ref h"
  shows "(ltenc_store T P irefs ident h = Some (Inr (result, h'))
            \<longrightarrow> result \<notin> set irefs \<and> (\<forall>p \<in> set irefs. cells h' p = cells h p))
       \<and> (next_store T P opt cur irefs h = Some (Inr ((symbol_id, result), cur1, h'))
            \<longrightarrow> result \<notin> set irefs \<and> (\<forall>p \<in> set irefs. cells h' p = cells h p))"
  using assms
  by (auto simp: next_store_def split: prod.splits option.splits sum.splits
           dest!: ltenc_store_frame)

theorem ltenc_frame_witness:
  "list_all (\<lambda>p. p < next_ref sample_store) [0 ..< 14]
   \<and> (\<exists>h'. ltenc_store sample_tables params_K4 [0 ..< 14] 2 sample_store = Some (Inr (14, h'))
          \<and> 14 \<notin> set [0 ..< 14] \<and> (\<forall>p \<in> set [0 ..< 14]. cells h' p = cells sample_store p))"
proof -
  have a: "\<forall>p \<in> set [0 ..< 14]. p < next_ref sample_store"
    by (simp add: sample_store_def)
  from ltenc_store_K4_2 obtain h' where
    r: "ltenc_store sample_tables params_K4 [0 ..< 14] 2 sample_store = Some (Inr (14, h'))"
    by blast
  from ltenc_frame [OF a, of sample_tables params_K4 2 14 h'] r
  have "14 \<notin> set [0 ..< 14] \<and> (\<forall>p \<in> set [0 ..< 14]. cells h' p = cells sample_store p)"
    by blast
  with a r show ?thesis unfolding list_all_iff by blast
qed

section \<open>The LT walk visits distinct columns\<close>

lemma is_prime_coprime:
  assumes "is_prime p" "0 < a" "a < p"
  shows "coprime p a"
proof (rule coprimeI)
  fix d assume d: "d dvd p" "d dvd a"
  from d(2) assms(2) have "d \<le> a" by (simp add: dvd_imp_le)
  with assms(3) have "d < p" by simp
  have "d \<noteq> 0" using d(2) assms(2) by auto
  have "\<not> (2 \<le> d)"
  proof
    assume "2 \<le> d"
    with \<open>d < p\<close> have "d \<in> set [2 ..< p]" by simp
    with assms(1) d(1) show False by (auto simp: is_prime_def)
  qed
  with \<open>d \<noteq> 0\<close> have "d = 1" by simp
  then show "is_unit d" by simp
qed

lemma walk_Suc: "walk lp a b (Suc t) = (walk lp a b t + a) mod lp"
proof -
  have "walk lp a b (Suc t) = ((b + t * a) + a) mod lp"
    by (simp add: walk_def ac_simps)
  also have "\<dots> = ((b + t * a) mod lp + a) mod lp"
    by (simp add: mod_add_left_eq)
  finally show ?thesis by (simp add: walk_def)
qed

lemma walk_inj:
  assumes p: "is_prime lp" and a: "0 < a" "a < lp" and t: "t < t'" "t' - t < lp"
  shows "walk lp a b t \<noteq> walk lp a b t'"
proof
  assume "walk lp a b t = walk lp a b t'"
  then have "(b + t * a) mod lp = (b + t' * a) mod lp" by (simp add: walk_def)
  then have "lp dvd (b + t' * a) - (b + t * a)"
    by (metis mod_eq_dvd_iff_nat add_le_cancel_left less_imp_le_nat mult_le_mono1 t(1))
  moreover have "(b + t' * a) - (b + t * a) = (t' - t) * a"
    by (simp add: diff_mult_distrib)
  ultimately have "lp dvd (t' - t) * a" by simp
  with is_prime_coprime [OF p a] have "lp dvd t' - t"
    by (simp add: coprime_dvd_mult_left_iff)
  with t show False by (auto dest: dvd_imp_le)
qed

lemma walk_inj_on: 
  assumes "is_prime lp" "0 < a" "a < lp"
  shows "inj_on (walk lp a b) {0 ..< lp}"
proof (rule inj_onI)
  fix x y assume xy: "x \<in> {0 ..< lp}" "y \<in> {0 ..< lp}" "walk lp a b x = walk lp a b y"
  show "x = y"
  proof (rule ccontr)
    assume "x \<noteq> y"
    then consider "x < y" | "y < x" by linarith
    then show False
    proof cases
      case 1
      with xy have "y - x < lp" by auto
      with 1 walk_inj [OF assms, of x y b] xy show False by auto
    next
      case 2
      with xy have "x - y < lp" by auto
      with 2 walk_inj [OF assms, of y x b] xy show False by auto
    qed
  qed
qed

lemma walk_image:
  assumes "is_prime lp" "0 < a" "a < lp"
  shows "walk lp a b ` {0 ..< lp} = {0 ..< lp}"
proof (rule card_subset_eq)
  show "finite {0 ..< lp}" by simp
  show "walk lp a b ` {0 ..< lp} \<subseteq> {0 ..< lp}"
    using assms by (auto simp: walk_def)
  show "card (walk lp a b ` {0 ..< lp}) = card {0 ..< lp}"
    using walk_inj_on [OF assms] by (simp add: card_image)
qed

lemma hits_full:
  assumes "is_prime lp" "0 < a" "a < lp" "l \<le> lp"
  shows "hits_before l lp a b lp = l"
proof -
  have eq: "walk lp a b ` {s. s < lp \<and> walk lp a b s < l} = {0 ..< l}"
  proof (rule set_eqI, rule iffI)
    fix x assume "x \<in> walk lp a b ` {s. s < lp \<and> walk lp a b s < l}"
    then show "x \<in> {0 ..< l}" by auto
  next
    fix x assume x: "x \<in> {0 ..< l}"
    with assms(4) have "x \<in> {0 ..< lp}" by simp
    with walk_image [OF assms(1-3), of b] obtain s where "s \<in> {0 ..< lp}" "walk lp a b s = x"
      by (metis imageE)
    with x show "x \<in> walk lp a b ` {s. s < lp \<and> walk lp a b s < l}" by auto
  qed
  have "inj_on (walk lp a b) {s. s < lp \<and> walk lp a b s < l}"
    by (rule inj_on_subset [OF walk_inj_on [OF assms(1-3)]]) auto
  then have "card {s. s < lp \<and> walk lp a b s < l} = card (walk lp a b ` {s. s < lp \<and> walk lp a b s < l})"
    by (simp add: card_image)
  with eq show ?thesis by (simp add: hits_before_def)
qed

lemma hits_before_mono: "t \<le> t' \<Longrightarrow> hits_before l lp a b t \<le> hits_before l lp a b t'"
  unfolding hits_before_def by (rule card_mono) auto

lemma hits_before_Suc:
  "hits_before l lp a b (Suc t) = hits_before l lp a b t + (if walk lp a b t < l then 1 else 0)"
proof -
  have "{s. s < Suc t \<and> walk lp a b s < l} =
        {s. s < t \<and> walk lp a b s < l} \<union> (if walk lp a b t < l then {t} else {})"
    by (auto simp: less_Suc_eq)
  then show ?thesis by (simp add: hits_before_def)
qed

lemma hit_exists:
  assumes "is_prime lp" "0 < a" "a < lp" "l \<le> lp" and h: "hits_before l lp a b t < l"
  shows "\<exists>s. t \<le> s \<and> s < lp \<and> walk lp a b s < l"
proof (rule ccontr)
  assume n: "\<not> ?thesis"
  have "t \<le> lp"
    using hits_before_mono [where t = lp and t' = t and l = l and lp = lp and a = a and b = b]
      hits_full [OF assms(1-4), of b] h by (cases "t \<le> lp") auto
  have "{s. s < lp \<and> walk lp a b s < l} \<subseteq> {s. s < t \<and> walk lp a b s < l}"
    using n by auto
  then have "hits_before l lp a b lp \<le> hits_before l lp a b t"
    unfolding hits_before_def by (intro card_mono) auto
  with hits_full [OF assms(1-4), of b] h show False by simp
qed

lemma skip_to_hit:
  assumes lp: "0 < lp" and hit: "walk lp a b s < l"
  shows "t \<le> s \<Longrightarrow>
         \<exists>t'. t \<le> t' \<and> t' \<le> s \<and> walk lp a b t' < l
               \<and> hits_before l lp a b t' = hits_before l lp a b t
               \<and> skip_to_l l lp a (walk lp a b t) = Some (Inr (walk lp a b t'))"
proof (induction "s - t" arbitrary: t)
  case 0
  then have "t = s" by simp
  with hit show ?case by (intro exI [of _ s]) (simp add: skip_to_l.simps)
next
  case (Suc n)
  show ?case
  proof (cases "walk lp a b t < l")
    case True
    with Suc.prems show ?thesis by (intro exI [of _ t]) (simp add: skip_to_l.simps)
  next
    case False
    from Suc.hyps(2) have "n = s - Suc t" and "Suc t \<le> s" by simp_all
    from Suc.hyps(1) [OF this] obtain t' where
      t': "Suc t \<le> t'" "t' \<le> s" "walk lp a b t' < l"
          "hits_before l lp a b t' = hits_before l lp a b (Suc t)"
          "skip_to_l l lp a (walk lp a b (Suc t)) = Some (Inr (walk lp a b t'))"
      by blast
    have "skip_to_l l lp a (walk lp a b t) = skip_to_l l lp a (walk lp a b (Suc t))"
      using False lp by (subst skip_to_l.simps) (simp add: walk_Suc)
    moreover have "hits_before l lp a b (Suc t) = hits_before l lp a b t"
      using False by (simp add: hits_before_Suc)
    ultimately show ?thesis using t' by (intro exI [of _ t']) simp
  qed
qed

lemma lt_next_columns_walk:
  assumes p: "is_prime lp" "0 < a" "a < lp" "l \<le> lp"
  shows "walk lp a b t0 < l \<Longrightarrow> hits_before l lp a b t0 + n < l \<Longrightarrow>
         \<exists>ts. lt_next_columns l lp a n (walk lp a b t0) = Some (Inr (map (walk lp a b) ts))
              \<and> length ts = n \<and> sorted_wrt (<) (t0 # ts)
              \<and> (\<forall>t \<in> set ts. t < lp \<and> walk lp a b t < l)"
proof (induction n arbitrary: t0)
  case 0
  then show ?case by (intro exI [of _ "[]"]) simp
next
  case (Suc n)
  have lp: "0 < lp" using p by simp
  have hb: "hits_before l lp a b (Suc t0) = hits_before l lp a b t0 + 1"
    using Suc.prems(1) by (simp add: hits_before_Suc)
  with Suc.prems(2) have "hits_before l lp a b (Suc t0) < l" by simp
  from hit_exists [OF p this] obtain s where
    s: "Suc t0 \<le> s" "s < lp" "walk lp a b s < l" by blast
  from skip_to_hit [OF lp s(3) s(1)] obtain t' where
    t': "Suc t0 \<le> t'" "t' \<le> s" "walk lp a b t' < l"
        "hits_before l lp a b t' = hits_before l lp a b (Suc t0)"
        "skip_to_l l lp a (walk lp a b (Suc t0)) = Some (Inr (walk lp a b t'))"
    by blast
  from t'(4) hb Suc.prems(2) have "hits_before l lp a b t' + n < l" by simp
  from Suc.IH [OF t'(3) this] obtain ts where
    ts: "lt_next_columns l lp a n (walk lp a b t') = Some (Inr (map (walk lp a b) ts))"
        "length ts = n" "sorted_wrt (<) (t' # ts)"
        "\<forall>t \<in> set ts. t < lp \<and> walk lp a b t < l"
    by blast
  have "lt_next_columns l lp a (Suc n) (walk lp a b t0)
          = Some (Inr (map (walk lp a b) (t' # ts)))"
    using lp t'(5) ts(1) by (simp add: walk_Suc [symmetric])
  moreover have "sorted_wrt (<) (t0 # t' # ts)"
    using ts(3) t'(1) by auto
  moreover have "\<forall>t \<in> set (t' # ts). t < lp \<and> walk lp a b t < l"
    using ts(4) t'(2,3) s(2) by auto
  ultimately show ?case using ts(2) by (intro exI [of _ "t' # ts"]) simp
qed

lemma lt_columns_ok:
  assumes tr: "triple T P esi = Inr (d, a, b)" and lpr: "self_l_prime P = Some lp"
    and p: "is_prime lp" "0 < a" "a < lp" "self_l P \<le> lp"
    and b: "b < lp" and l: "0 < self_l P" and d: "1 \<le> d"
  shows "\<exists>bs. lt_columns T P esi = Some (Inr bs) \<and> length bs = min d (self_l P)
              \<and> distinct bs \<and> (\<forall>c \<in> set bs. c < self_l P)"
proof -
  let ?l = "self_l P"
  have lp: "0 < lp" using p by simp
  have w0: "walk lp a b 0 = b" using b by (simp add: walk_def)
  have "hits_before ?l lp a b 0 < ?l" using l by (simp add: hits_before_def)
  from hit_exists [OF p this] obtain s where
    s: "s < lp" "walk lp a b s < ?l" by blast
  from skip_to_hit [OF lp s(2), of 0] obtain t0 where
    t0: "t0 \<le> s" "walk lp a b t0 < ?l"
        "hits_before ?l lp a b t0 = hits_before ?l lp a b 0"
        "skip_to_l ?l lp a (walk lp a b 0) = Some (Inr (walk lp a b t0))"
    by blast
  have h0: "hits_before ?l lp a b 0 = 0" by (simp add: hits_before_def)
  have "hits_before ?l lp a b t0 + (min d ?l - 1) < ?l"
    using t0(3) l h0 by simp
  from lt_next_columns_walk [OF p t0(2) this] obtain ts where
    ts: "lt_next_columns ?l lp a (min d ?l - 1) (walk lp a b t0)
           = Some (Inr (map (walk lp a b) ts))"
        "length ts = min d ?l - 1" "sorted_wrt (<) (t0 # ts)"
        "\<forall>t \<in> set ts. t < lp \<and> walk lp a b t < ?l"
    by blast
  let ?bs = "map (walk lp a b) (t0 # ts)"
  have r: "lt_columns T P esi = Some (Inr ?bs)"
    using tr lpr t0(4) ts(1) by (simp add: lt_columns_def w0)
  have len: "length ?bs = min d ?l" using ts(2) d l by simp
  have dts: "distinct (t0 # ts)"
    using ts(3) by (metis strict_sorted_iff)
  have sub: "set (t0 # ts) \<subseteq> {0 ..< lp}"
    using ts(4) t0(1) s(1) by auto
  have "inj_on (walk lp a b) (set (t0 # ts))"
    by (rule inj_on_subset [OF walk_inj_on [OF p(1-3)] sub])
  with dts have dist: "distinct ?bs"
    by (simp only: distinct_map)
  have "\<forall>c \<in> set ?bs. c < ?l" using ts(4) t0(2) by auto
  with r len dist show ?thesis by blast
qed

lemma set_bit_nth: "c < length ba \<Longrightarrow> ba [b := True] ! c = (ba ! c \<or> c = b)"
  by (cases "b = c") auto

lemma set_bits_nth:
  "c < length ba \<Longrightarrow> fold (\<lambda>b ba. ba [b := True]) bs ba ! c = (ba ! c \<or> c \<in> set bs)"
  by (induction bs arbitrary: ba) (auto simp: set_bit_nth)

lemma set_bits_length [simp]: "length (fold (\<lambda>b ba. ba [b := True]) bs ba) = length ba"
  by (induction bs arbitrary: ba) auto

lemma set_bits_eq:
  "fold (\<lambda>b ba. ba [b := True]) bs (replicate l False) = map (\<lambda>c. c \<in> set bs) [0 ..< l]"
  by (rule nth_equalityI) (simp_all add: set_bits_nth)

lemma count_marks:
  assumes "distinct bs" and "\<forall>c \<in> set bs. c < l"
  shows "count (map (\<lambda>c. c \<in> set bs) [0 ..< l]) = length bs"
proof -
  have "count (map (\<lambda>c. c \<in> set bs) [0 ..< l]) = length (filter (\<lambda>c. c \<in> set bs) [0 ..< l])"
    by (simp add: count_def filter_map comp_def)
  also have "\<dots> = card ({c. c \<in> set bs} \<inter> set [0 ..< l])"
    by (simp add: distinct_length_filter)
  also have "{c. c \<in> set bs} \<inter> set [0 ..< l] = set bs" using assms(2) by auto
  finally show ?thesis using assms(1) by (simp add: distinct_card)
qed

lemma marked_columns_mset:
  assumes "distinct bs" and "\<forall>c \<in> set bs. c < l"
  shows "mset (filter (\<lambda>c. map (\<lambda>c. c \<in> set bs) [0 ..< l] ! c) [0 ..< l]) = mset bs"
proof -
  have "filter (\<lambda>c. map (\<lambda>c. c \<in> set bs) [0 ..< l] ! c) [0 ..< l] = filter (\<lambda>c. c \<in> set bs) [0 ..< l]"
    by (rule filter_cong) auto
  moreover have "set (filter (\<lambda>c. c \<in> set bs) [0 ..< l]) = set bs" using assms(2) by auto
  moreover have "distinct (filter (\<lambda>c. c \<in> set bs) [0 ..< l])" by simp
  ultimately show ?thesis using assms(1) by (simp add: set_eq_iff_mset_eq_distinct [symmetric] mset_set_set)
qed

lemma xor_arrays_commute: "xor_arrays x \<circ> xor_arrays y = xor_arrays y \<circ> xor_arrays x"
proof (rule ext)
  fix r :: "'a word list"
  show "(xor_arrays x \<circ> xor_arrays y) r = (xor_arrays y \<circ> xor_arrays x) r"
    by (rule nth_equalityI) (auto simp: xor_arrays_def ac_simps)
qed

lemma xor_arrays_zero: "length v = W \<Longrightarrow> xor_arrays v (replicate W 0) = v"
  by (rule nth_equalityI) (auto simp: xor_arrays_def)

lemma ltenc_loop_columns:
  assumes I: "\<forall>c < l. I ! c \<noteq> None"
  shows "lt_next_columns l lp a n b = Some (Inr bs) \<Longrightarrow>
         ltenc_loop l lp a I n b res = Some (Inr (fold xor_arrays (map (symbol_at I) bs) res))"
proof (induction n arbitrary: b res bs)
  case 0
  then show ?case by simp
next
  case (Suc n)
  from Suc.prems obtain b1 bs1 where
    s: "lp \<noteq> 0" "skip_to_l l lp a ((b + a) mod lp) = Some (Inr b1)"
       "lt_next_columns l lp a n b1 = Some (Inr bs1)" "bs = b1 # bs1"
    by (auto split: if_splits option.splits sum.splits)
  from skip_to_l_lt [OF s(2)] I obtain v where v: "I ! b1 = Some v" by auto
  show ?case
    using s v Suc.IH [OF s(3)] by (simp add: symbol_at_def)
qed

lemma lt_columns_split:
  assumes "lt_columns T P esi = Some (Inr bs)"
  shows "\<exists>d a b lp b0 bs1. triple T P esi = Inr (d, a, b) \<and> self_l_prime P = Some lp
           \<and> skip_to_l (self_l P) lp a b = Some (Inr b0)
           \<and> lt_next_columns (self_l P) lp a (min d (self_l P) - 1) b0 = Some (Inr bs1)
           \<and> bs = b0 # bs1"
  using assms by (auto simp: lt_columns_def split: sum.splits option.splits prod.splits)

lemma ltenc_columns:
  assumes c: "lt_columns T (prm self) esi = Some (Inr bs)"
    and I: "i_symbols self = Some I" "\<forall>c < self_l (prm self). \<exists>v. I ! c = Some v \<and> length v = W"
  shows "ltenc T self esi
           = Some (Inr (fold xor_arrays (map (symbol_at I) bs) (replicate W 0)))"
proof -
  from lt_columns_split [OF c] obtain d a b lp b0 bs1 where
    s: "triple T (prm self) esi = Inr (d, a, b)" "self_l_prime (prm self) = Some lp"
       "skip_to_l (self_l (prm self)) lp a b = Some (Inr b0)"
       "lt_next_columns (self_l (prm self)) lp a (min d (self_l (prm self)) - 1) b0 = Some (Inr bs1)"
       "bs = b0 # bs1"
    by blast
  from skip_to_l_lt [OF s(3)] I(2) obtain v where v: "I ! b0 = Some v" "length v = W" by blast
  have n: "\<forall>c < self_l (prm self). I ! c \<noteq> None" using I(2) by auto
  have "ltenc T self esi = Some (Inr (fold xor_arrays (map (symbol_at I) bs1) v))"
    using s v I(1) ltenc_loop_columns [OF n s(4), of v] by (simp add: ltenc_def)
  moreover have "fold xor_arrays (map (symbol_at I) bs) (replicate W 0)
                   = fold xor_arrays (map (symbol_at I) bs1) v"
    using s(5) v by (simp add: symbol_at_def xor_arrays_zero)
  ultimately show ?thesis by simp
qed

subsection \<open>Claim C7\<close>

text \<open>
  C7: for a valid \<open>K\<close> with parameters derived by \<^verbatim>\<open>set_params\<close> and tables that meet
  their interface, \<^verbatim>\<open>lt_row(ESI)\<close> returns a bit-vector of length \<open>L\<close> with exactly
  \<open>min(d, L)\<close> ones, where \<open>(d, a, b)\<close> is \<^verbatim>\<open>triple(ESI)\<close>; and on an instance whose \<open>L\<close>
  intermediate symbols are materialised with a uniform width, \<^verbatim>\<open>ltenc(ESI)\<close> returns
  the XOR of the intermediate symbols at exactly the columns that \<^verbatim>\<open>lt_row(ESI)\<close> marks.
\<close>

theorem lt_row_weight:
  assumes P: "set_params T k = Inr (prm self)" and lp: "self_l_prime (prm self) = Some lp"
    and R: "random_ok T" and D: "degree_ok T" and Pr: "primes_ok T"
    and I: "i_symbols self = Some I"
           "\<forall>c < self_l (prm self). \<exists>v. I ! c = Some v \<and> length v = W"
  shows "\<exists>d a b row. triple T (prm self) esi = Inr (d, a, b)
           \<and> lt_row T (prm self) esi = Some (Inr row)
           \<and> length row = self_l (prm self)
           \<and> count row = min d (self_l (prm self))
           \<and> ltenc T self esi = Some (Inr (xor_of_columns W I row))"
proof -
  let ?P = "prm self" and ?l = "self_l (prm self)"
  from triple_bounds [OF P lp R D Pr, of esi] obtain d a b where
    t: "triple T ?P esi = Inr (d, a, b)" "1 \<le> a" "a \<le> lp - 1" "b \<le> lp - 1" "1 \<le> d"
    by blast
  from set_params_Inr_D [OF P] have
    l: "?l = self_k ?P + self_s ?P + self_h ?P" "MIN_K \<le> self_k ?P"
       "self_l_prime ?P = primes_next T ?l"
    by simp_all
  from lp l(3) Pr have pr: "is_prime lp" "?l \<le> lp" by (simp_all add: primes_ok_def)
  from l(1,2) have l0: "0 < ?l" by (simp add: MIN_K_def)
  with pr(2) have lp0: "0 < lp" by simp
  have a0: "0 < a" and alp: "a < lp" and blp: "b < lp" using t(2-4) lp0 by simp_all
  from lt_columns_ok [OF t(1) lp pr(1) a0 alp pr(2) blp l0 t(5)]
  obtain bs where
    bs: "lt_columns T ?P esi = Some (Inr bs)" "length bs = min d ?l" "distinct bs"
        "\<forall>c \<in> set bs. c < ?l"
    by blast
  let ?row = "map (\<lambda>c. c \<in> set bs) [0 ..< ?l]"
  have row: "lt_row T ?P esi = Some (Inr ?row)"
    using bs(1) by (simp add: lt_row_def set_bits_eq)
  have cnt: "count ?row = min d ?l"
    using count_marks [OF bs(3,4)] bs(2) by simp
  have "mset (map (symbol_at I) (filter (\<lambda>c. ?row ! c) [0 ..< ?l])) = mset (map (symbol_at I) bs)"
    using marked_columns_mset [OF bs(3,4)] by (metis mset_map)
  then have "fold xor_arrays (map (symbol_at I) (filter (\<lambda>c. ?row ! c) [0 ..< ?l])) (replicate W 0)
               = fold xor_arrays (map (symbol_at I) bs) (replicate W 0)"
    by (intro fun_cong [OF fold_multiset_equiv]) (simp_all add: xor_arrays_commute)
  then have "ltenc T self esi = Some (Inr (xor_of_columns W I ?row))"
    using ltenc_columns [OF bs(1) I] by (simp add: xor_of_columns_def)
  with t(1) row cnt show ?thesis by simp
qed

theorem lt_row_weight_witness:
  "set_params sample_tables 4 = Inr (prm encoder_K4)
   \<and> (\<exists>d a b row. triple sample_tables (prm encoder_K4) 2 = Inr (d, a, b)
          \<and> lt_row sample_tables (prm encoder_K4) 2 = Some (Inr row)
          \<and> length row = self_l (prm encoder_K4)
          \<and> count row = min d (self_l (prm encoder_K4))
          \<and> ltenc sample_tables encoder_K4 2
                = Some (Inr (xor_of_columns 2 (map (\<lambda>c. Some [of_nat c, 7]) [0 ..< 14]) row)))"
proof -
  have P: "set_params sample_tables 4 = Inr (prm encoder_K4)"
    using set_params_K4 by (simp add: encoder_K4_def)
  have lp: "self_l_prime (prm encoder_K4) = Some 17"
    by (simp add: encoder_K4_def params_K4_def)
  have I: "i_symbols encoder_K4 = Some (map (\<lambda>c. Some [of_nat c, 7]) [0 ..< 14])"
    by (simp add: encoder_K4_def)
  have W: "\<forall>c < self_l (prm encoder_K4).
             \<exists>v. map (\<lambda>c. Some [of_nat c, 7 :: 64 word]) [0 ..< 14] ! c = Some v \<and> length v = 2"
    by (simp add: encoder_K4_def params_K4_def)
  show ?thesis
    using lt_row_weight [OF P lp sample_random_ok sample_degree_ok sample_primes_ok I W, of 2] P
    by simp
qed

section \<open>Assembling the matrix always returns\<close>

lemma lt_row_total:
  assumes P: "set_params T k = Inr P"
    and R: "random_ok T" and D: "degree_ok T" and Pr: "primes_ok T"
  shows "\<exists>r. lt_row T P esi = Some r"
proof (cases "self_l_prime P")
  case None
  then show ?thesis by (simp add: lt_row_def lt_columns_def triple_def Let_def)
next
  case (Some lp)
  from triple_bounds [OF P Some R D Pr, of esi] obtain d a b where
    t: "triple T P esi = Inr (d, a, b)" "1 \<le> a" "a \<le> lp - 1" "b \<le> lp - 1" "1 \<le> d"
    by blast
  from set_params_Inr_D [OF P] have
    l: "self_l P = self_k P + self_s P + self_h P" "MIN_K \<le> self_k P"
       "self_l_prime P = primes_next T (self_l P)"
    by simp_all
  from Some l(3) Pr have pr: "is_prime lp" "self_l P \<le> lp" by (simp_all add: primes_ok_def)
  from l(1,2) have l0: "0 < self_l P" by (simp add: MIN_K_def)
  with pr(2) have lp0: "0 < lp" by simp
  have a0: "0 < a" and alp: "a < lp" and blp: "b < lp" using t(2-4) lp0 by simp_all
  from lt_columns_ok [OF t(1) Some pr(1) a0 alp pr(2) blp l0 t(5)]
  obtain bs where "lt_columns T P esi = Some (Inr bs)" by blast
  then show ?thesis by (simp add: lt_row_def)
qed

lemma lt_section_total:
  assumes P: "set_params T k = Inr P"
    and R: "random_ok T" and D: "degree_ok T" and Pr: "primes_ok T"
  shows "\<exists>r. lt_section T P esis = Some r"
proof (induction esis)
  case Nil
  then show ?case by simp
next
  case (Cons esi esis)
  from lt_row_total [OF P R D Pr, of esi] obtain r where "lt_row T P esi = Some r" by blast
  with Cons show ?case by (cases r) (auto split: sum.splits)
qed

lemma assemble_a_total:
  assumes P: "set_params T k = Inr P"
    and R: "random_ok T" and D: "degree_ok T" and Pr: "primes_ok T"
  shows "\<exists>r. assemble_a T P esis = Some r"
proof -
  from lt_section_total [OF assms, of esis] obtain r where "lt_section T P esis = Some r" by blast
  then show ?thesis by (cases r) (auto simp: assemble_a_def split: sum.splits)
qed

subsection \<open>Claim C5\<close>

text \<open>
  C5: on an instance whose parameters were derived by \<^verbatim>\<open>set_params\<close> from tables that meet
  their interface, and for every list of received symbols, \<^verbatim>\<open>can_decode\<close> returns a
  Boolean: \<^verbatim>\<open>True\<close> exactly when assembling a fresh matrix \<open>A\<close> and running
  \<^verbatim>\<open>decoding_schedule\<close> on it both return, \<^verbatim>\<open>False\<close> when either raises. No exception
  reaches the caller, and no attribute of the instance is written.
\<close>

theorem can_decode_total:
  assumes P: "set_params T k = Inr (prm self)"
    and R: "random_ok T" and D: "degree_ok T" and Pr: "primes_ok T"
  shows "\<exists>r. can_decode T ch self = Some r
           \<and> r = (\<exists>a res. assemble_a T (prm self) (map fst (symbols self)) = Some (Inr a)
                    \<and> decoding_schedule ch (self_l (prm self))
                         (self_s (prm self) + self_h (prm self) + length (symbols self))
                         (use_prepass self) a = Inr res)"
proof -
  from assemble_a_total [OF assms, of "map fst (symbols self)"] obtain r where
    "assemble_a T (prm self) (map fst (symbols self)) = Some r" by blast
  then show ?thesis
    by (cases r) (auto simp: can_decode_def split: sum.splits)
qed

theorem can_decode_total_witness:
  "\<exists>r. can_decode sample_tables sample_choices short_instance = Some r
       \<and> r = (\<exists>a res. assemble_a sample_tables (prm short_instance)
                         (map fst (symbols short_instance)) = Some (Inr a)
                \<and> decoding_schedule sample_choices (self_l (prm short_instance))
                     (self_s (prm short_instance) + self_h (prm short_instance)
                        + length (symbols short_instance))
                     (use_prepass short_instance) a = Inr res)"
proof -
  have P: "set_params sample_tables 4 = Inr (prm short_instance)"
    using set_params_K4 by (simp add: short_instance_def)
  show ?thesis
    by (rule can_decode_total [OF P sample_random_ok sample_degree_ok sample_primes_ok])
qed

section \<open>Facts about matrices and the elementary operations\<close>



lemma wf_mat_length: "wf_mat l m A \<Longrightarrow> length A = m"
  by (simp add: wf_mat_def)



lemma xor_bits_length [simp]: "length (xor_bits x y) = min (length x) (length y)"
  by (simp add: xor_bits_def)





lemma o_degrees_xor_row [simp]: "o_degrees (xor_row st r1 r2) = o_degrees st"
  by (simp add: xor_row_def)

lemma o_degrees_exchange_column [simp]: "o_degrees (exchange_column st c1 c2) = o_degrees st"
  by (simp add: exchange_column_def)












section \<open>Facts about row selection\<close>

















section \<open>Facts about the row sweeps\<close>


lemma o_degrees_fold_xor_step [simp]: "o_degrees (fold (xor_step c) rs st) = o_degrees st"
  by (induction rs arbitrary: st) (simp_all add: xor_step_def)

lemma xor_rows_below_eq: "xor_rows_below m c st = fold (xor_step c) [c + 1 ..< m] st"
  unfolding xor_rows_below_def xor_step_def ..


lemma o_degrees_xor_rows_below [simp]: "o_degrees (xor_rows_below m c st) = o_degrees st"
  by (simp add: xor_rows_below_eq)

section \<open>Phase I keeps its invariant\<close>














section \<open>Phase II\<close>





section \<open>The prepass\<close>









section \<open>The assembled matrix has a one in every column\<close>
















section \<open>Assembling returns a matrix\<close>





section \<open>Phase I on a matrix with a one in every column\<close>




subsection \<open>Claim C3\<close>




end
